theory Spec2Isabelle
  imports Main "HOL-Library.Word"
begin

section \<open>The bisection challenge connection of the validator's Ethereum bridge\<close>

text \<open>
  A shallow embedding of \<^verbatim>\<open>packages/arb-validator/ethbridge/bisectionChallenge.go\<close>.
  Values that Go returns as \<^verbatim>\<open>(value, error)\<close> are sums with the error on the left;
  a function that returns only \<^verbatim>\<open>error\<close> finishes with a \<open>go_result\<close>, which
  also records a run-time panic. Channels are the lists of the values sent on them so
  far, oldest first; a send appends. The Ethereum client, the generated contract
  binding and the embedded base challenge are not part of the file: they are the fields
  of the records \<open>client\<close>, \<open>contract\<close> and \<open>bisectionChallenge\<close>.
\<close>

subsection \<open>Data\<close>

type_synonym hash = "256 word"
type_synonym address = "160 word"

datatype error = ClientError nat | Wrap error string

datatype panic = IndexOutOfRange | InvalidInput

datatype go_result = NoError | Err error | Panic panic

text \<open>\<^verbatim>\<open>types.Log\<close>, with the fields the file reads.\<close>

record log =
  Address :: address
  Topics :: "hash list"
  BlockNumber :: "64 word"
  TxHash :: hash
  BlockHash :: hash

text \<open>\<^verbatim>\<open>types.Header\<close>: \<open>Number\<close> is a \<^verbatim>\<open>*big.Int\<close>; \<open>Hash\<close> stands for the
  result of the method \<^verbatim>\<open>Hash()\<close>.\<close>

record header =
  Number :: int
  Hash :: hash

text \<open>\<^verbatim>\<open>ethereum.FilterQuery\<close>; a \<^verbatim>\<open>nil\<close> block bound is \<open>None\<close>.\<close>

record FilterQuery =
  FromBlock :: "int option"
  ToBlock :: "int option"
  Addresses :: "address list"
  QTopics :: "hash list list"

text \<open>\<^verbatim>\<open>executionchallenge.BisectionChallengeContinued\<close>, the decoded event.\<close>

record Continued =
  SegmentIndex :: int
  DeadlineTicks :: int

datatype TimeTicks = TimeTicks (Val: int)

datatype event = ContinueChallengeEvent (evSegmentIndex: int) (Deadline: TimeTicks)

text \<open>\<^verbatim>\<open>arbbridge.Notification\<close>.\<close>

record Notification =
  BlockHeader :: hash
  BlockHeight :: int
  VMID :: address
  Event :: event
  NTxHash :: hash

text \<open>The move handed to the contract binding's \<^verbatim>\<open>ChooseSegment\<close>.\<close>

record Move =
  segmentIndex :: int
  proofFlat :: "hash list"
  root :: hash
  leafValue :: hash

text \<open>The generated binding \<^verbatim>\<open>executionchallenge.BisectionChallenge\<close>: the two methods
  the file calls. A transaction handle is a number.\<close>

record contract =
  ParseContinued :: "log \<Rightarrow> error + Continued"
  ChooseSegment :: "Move \<Rightarrow> error + nat"

text \<open>The Ethereum client and the other collaborators of the file. \<open>HeaderByNumber\<close>
  is the call with a \<^verbatim>\<open>nil\<close> number (the current head). \<open>continuedChallengeID\<close> is
  the topic digest that \<^verbatim>\<open>init\<close> computes from the ABI.
  \<open>challengeStartConnection\<close> is the result of the embedded challenge's
  \<^verbatim>\<open>StartConnection\<close>, and \<open>waitForReceipt\<close> is the embedded challenge's method of
  that name. The context that the Go calls pass on is not an argument here: what a call
  answers under the context it is given is what the field returns.\<close>

record client =
  continuedChallengeID :: hash
  challengeStartConnection :: "error option"
  NewBisectionChallenge :: "address \<Rightarrow> error + contract"
  HeaderByNumber :: "error + header"
  FilterLogs :: "FilterQuery \<Rightarrow> error + log list"
  SubscribeFilterLogs :: "FilterQuery \<Rightarrow> error option"
  HeaderByHash :: "hash \<Rightarrow> error + header"
  waitForReceipt :: "nat \<Rightarrow> string \<Rightarrow> error option"

text \<open>The receiver: the embedded challenge's address and client, and the binding
  (a pointer the file dereferences only after \<open>setupContracts\<close> has set it).\<close>

record bisectionChallenge =
  address :: address
  client :: client
  BisectionChallenge :: contract

text \<open>What a caller of \<^verbatim>\<open>StartConnection\<close> can observe afterwards: the two
  channels, the live log subscription, the background task, and the receiver (whose
  binding \<open>setupContracts\<close> replaces).\<close>

datatype subscription = NoSubscription | Subscribed FilterQuery | Unsubscribed

datatype task = NotStarted | Running | Returned | Crashed panic

record connection =
  outChan :: "Notification list"
  errChan :: "error list"
  logSub :: subscription
  task :: task
  receiver :: bisectionChallenge

text \<open>One iteration of the task's \<^verbatim>\<open>select\<close> takes the case the Go runtime picked:
  \<^verbatim>\<open>ctx.Done()\<close> is closed, a log arrived on \<^verbatim>\<open>logChan\<close>, or the subscription
  reported an error.\<close>

datatype select_case = CtxDone | LogRecv log | SubErr error

subsection \<open>Conversions\<close>

text \<open>Modelled from the spec: \<^verbatim>\<open>common.NewHashFromEth\<close> and
  \<^verbatim>\<open>common.NewAddressFromEth\<close> of arb-util are missing; the notification carries the
  block header's hash and the dispute identity themselves, so both copy their bytes.\<close>

definition NewHashFromEth :: "hash \<Rightarrow> hash" where
  "NewHashFromEth h = h"

definition NewAddressFromEth :: "address \<Rightarrow> address" where
  "NewAddressFromEth a = a"

subsection \<open>processEvents\<close>

text \<open>The result and the notification channel after the call. \<^verbatim>\<open>log.Topics[0]\<close> on
  an empty slice is Go's index-out-of-range panic.\<close>

definition processEvents ::
  "bisectionChallenge \<Rightarrow> log \<Rightarrow> Notification list \<Rightarrow> go_result \<times> Notification list" where
  "processEvents c lg out =
     (case HeaderByHash (client c) (BlockHash lg) of
        Inl err \<Rightarrow> (Err err, out)
      | Inr hdr \<Rightarrow>
          (case Topics lg of
             [] \<Rightarrow> (Panic IndexOutOfRange, out)
           | t # _ \<Rightarrow>
               if t = continuedChallengeID (client c) then
                 (case ParseContinued (BisectionChallenge c) lg of
                    Inl err \<Rightarrow> (Err err, out)
                  | Inr contChal \<Rightarrow>
                      (NoError, out @
                        [\<lparr>BlockHeader = NewHashFromEth (Hash hdr),
                          BlockHeight = Number hdr,
                          VMID = NewAddressFromEth (address c),
                          Event = ContinueChallengeEvent (SegmentIndex contChal)
                                    (TimeTicks (DeadlineTicks contChal)),
                          NTxHash = TxHash lg\<rparr>]))
               else (NoError, out)))"

subsection \<open>setupContracts and StartConnection\<close>

definition setupContracts :: "bisectionChallenge \<Rightarrow> error + bisectionChallenge" where
  "setupContracts c =
     (case NewBisectionChallenge (client c) (address c) of
        Inl err \<Rightarrow> Inl (Wrap err ''Failed to connect to ChallengeManager'')
      | Inr challengeManagerContract \<Rightarrow>
          Inr (c\<lparr>BisectionChallenge := challengeManagerContract\<rparr>))"

text \<open>The loop over the historical logs: the first result that is not \<^verbatim>\<open>nil\<close>
  ends it.\<close>

fun historyLoop ::
  "bisectionChallenge \<Rightarrow> log list \<Rightarrow> Notification list \<Rightarrow> go_result \<times> Notification list" where
  "historyLoop c [] out = (NoError, out)"
| "historyLoop c (lg # logs) out =
     (case processEvents c lg out of
        (NoError, out') \<Rightarrow> historyLoop c logs out'
      | (r, out') \<Rightarrow> (r, out'))"

text \<open>The background task, run on the cases its \<^verbatim>\<open>select\<close> takes, one per
  iteration. When the list is used up the task is blocked in \<^verbatim>\<open>select\<close>: it has
  not returned. The \<^verbatim>\<open>break\<close> of the \<^verbatim>\<open>ctx.Done()\<close> case leaves the
  \<^verbatim>\<open>select\<close> statement and the \<^verbatim>\<open>for\<close> loop goes on. The deferred
  \<^verbatim>\<open>Unsubscribe\<close> runs when the function returns or panics.\<close>

fun liveTask :: "bisectionChallenge \<Rightarrow> select_case list \<Rightarrow> connection \<Rightarrow> connection" where
  "liveTask c [] s = s"
| "liveTask c (CtxDone # rest) s = liveTask c rest s"
| "liveTask c (LogRecv lg # rest) s =
     (case processEvents c lg (outChan s) of
        (NoError, out) \<Rightarrow> liveTask c rest (s\<lparr>outChan := out\<rparr>)
      | (Err err, out) \<Rightarrow>
          s\<lparr>outChan := out, errChan := errChan s @ [err],
            logSub := Unsubscribed, task := Returned\<rparr>
      | (Panic p, out) \<Rightarrow>
          s\<lparr>outChan := out, logSub := Unsubscribed, task := Crashed p\<rparr>)"
| "liveTask c (SubErr err # rest) s =
     s\<lparr>errChan := errChan s @ [err], logSub := Unsubscribed, task := Returned\<rparr>"

text \<open>\<^verbatim>\<open>StartConnection\<close> up to the \<^verbatim>\<open>go\<close> statement; the task it starts is
  \<open>liveTask\<close> on the receiver of the returned connection.\<close>

definition StartConnection ::
  "bisectionChallenge \<Rightarrow> Notification list \<Rightarrow> error list \<Rightarrow> go_result \<times> connection" where
  "StartConnection c out errs =
     (let s = \<lparr>outChan = out, errChan = errs, logSub = NoSubscription,
                task = NotStarted, receiver = c\<rparr> in
      case challengeStartConnection (client c) of
        Some err \<Rightarrow> (Err err, s)
      | None \<Rightarrow>
      (case setupContracts c of
        Inl err \<Rightarrow> (Err err, s)
      | Inr c' \<Rightarrow>
      (case HeaderByNumber (client c') of
        Inl err \<Rightarrow> (Err err, s\<lparr>receiver := c'\<rparr>)
      | Inr hdr \<Rightarrow>
      (let filter0 = \<lparr>FromBlock = None, ToBlock = None, Addresses = [address c'],
                       QTopics = [[continuedChallengeID (client c')]]\<rparr>;
           filter1 = filter0\<lparr>ToBlock := Some (Number hdr)\<rparr> in
       case FilterLogs (client c') filter1 of
        Inl err \<Rightarrow> (Err err, s\<lparr>receiver := c'\<rparr>)
      | Inr logs \<Rightarrow>
      (case historyLoop c' logs out of
        (NoError, out') \<Rightarrow>
          (let filter2 = filter1\<lparr>FromBlock := Some (Number hdr + 1), ToBlock := None\<rparr> in
           case SubscribeFilterLogs (client c') filter2 of
             Some err \<Rightarrow> (Err err, s\<lparr>outChan := out', receiver := c'\<rparr>)
           | None \<Rightarrow>
               (NoError, s\<lparr>outChan := out', logSub := Subscribed filter2,
                            task := Running, receiver := c'\<rparr>))
      | (r, out') \<Rightarrow> (r, s\<lparr>outChan := out', receiver := c'\<rparr>))))))"

subsection \<open>The authoritative log behind the client\<close>

text \<open>Modelled from the spec: the Ethereum client library is not part of the
  repository. Section 6 gives its interface: \<^verbatim>\<open>queryLogs(address, topics, fromHeight,
  toHeight)\<close> answers with the entries of the log that match the address and the topics
  and lie in the height range, in log order, and \<^verbatim>\<open>subscribeLogs(address, topics,
  fromHeight)\<close> delivers the matching entries from \<^verbatim>\<open>fromHeight\<close> on. A \<^verbatim>\<open>nil\<close>
  bound does not restrict.\<close>

fun topicsMatch :: "hash list list \<Rightarrow> hash list \<Rightarrow> bool" where
  "topicsMatch [] ts = True"
| "topicsMatch (alts # qs) [] = False"
| "topicsMatch (alts # qs) (t # ts) = ((alts = [] \<or> t \<in> set alts) \<and> topicsMatch qs ts)"

definition matches :: "FilterQuery \<Rightarrow> log \<Rightarrow> bool" where
  "matches q lg =
     (Address lg \<in> set (Addresses q) \<and> topicsMatch (QTopics q) (Topics lg) \<and>
      (case FromBlock q of None \<Rightarrow> True | Some f \<Rightarrow> f \<le> uint (BlockNumber lg)) \<and>
      (case ToBlock q of None \<Rightarrow> True | Some t \<Rightarrow> uint (BlockNumber lg) \<le> t))"

definition queryLogs :: "log list \<Rightarrow> FilterQuery \<Rightarrow> log list" where
  "queryLogs ledger q = filter (matches q) ledger"

text \<open>What the live subscription with query \<open>q\<close> hands to the task's \<^verbatim>\<open>select\<close>.\<close>

definition subscribeLogs :: "log list \<Rightarrow> FilterQuery \<Rightarrow> select_case list" where
  "subscribeLogs ledger q = map LogRecv (queryLogs ledger q)"

text \<open>A client that answers from the log \<open>ledger\<close> with head \<open>hd_\<close>, whose calls do
  not fail except where \<open>headers\<close> and \<open>bind\<close> say so.\<close>

definition ledgerClient ::
  "hash \<Rightarrow> log list \<Rightarrow> header \<Rightarrow> (hash \<Rightarrow> error + header) \<Rightarrow>
   (address \<Rightarrow> error + contract) \<Rightarrow> client" where
  "ledgerClient topic ledger head headers bind =
     \<lparr>continuedChallengeID = topic,
      challengeStartConnection = None,
      NewBisectionChallenge = bind,
      HeaderByNumber = Inr head,
      FilterLogs = (\<lambda>q. Inr (queryLogs ledger q)),
      SubscribeFilterLogs = (\<lambda>q. None),
      HeaderByHash = headers,
      waitForReceipt = (\<lambda>tx name. None)\<rparr>"

subsection \<open>The commitment tree\<close>

text \<open>Modelled from the spec: \<^verbatim>\<open>NewMerkleTree\<close>, \<^verbatim>\<open>GetProofFlat\<close>, \<^verbatim>\<open>GetRoot\<close>
  and \<^verbatim>\<open>GetNode\<close> of the package are missing. Section 4.1: building fails with
  \<^verbatim>\<open>InvalidInput\<close> on the empty sequence; the tree is a perfect binary tree whose leaf
  count is the next power of two at or above the input length, padded with a fixed
  sentinel; an inner node is the hash of its two children; the leaf value and the proof
  fail with \<^verbatim>\<open>IndexOutOfRange\<close> for an index at or beyond the input length; the proof is
  the sibling path from the leaf to the root, bottom to top. The Go functions return one
  value, so a failure is a panic. The hash of two children and the sentinel are not
  fixed by the spec: they are the record \<open>hashing\<close>.\<close>

record hashing =
  combine :: "hash \<Rightarrow> hash \<Rightarrow> hash"
  sentinel :: hash

datatype mtree = Leaf hash | Node hash mtree mtree

fun nodeValue :: "mtree \<Rightarrow> hash" where
  "nodeValue (Leaf v) = v"
| "nodeValue (Node v l r) = v"

function depthFrom :: "nat \<Rightarrow> nat \<Rightarrow> nat \<Rightarrow> nat" where
  "depthFrom d p n = (if p = 0 \<or> n \<le> p then d else depthFrom (Suc d) (2 * p) n)"
  by pat_completeness auto
termination
  by (relation "measure (\<lambda>(d, p, n). n - p)") auto

definition treeDepth :: "nat \<Rightarrow> nat" where
  "treeDepth n = depthFrom 0 1 n"

fun build :: "hashing \<Rightarrow> nat \<Rightarrow> hash list \<Rightarrow> mtree" where
  "build hp 0 xs = Leaf (case xs of [] \<Rightarrow> sentinel hp | x # _ \<Rightarrow> x)"
| "build hp (Suc d) xs =
     (let l = build hp d (take (2 ^ d) xs); r = build hp d (drop (2 ^ d) xs)
      in Node (combine hp (nodeValue l) (nodeValue r)) l r)"

fun leafAt :: "mtree \<Rightarrow> nat \<Rightarrow> nat \<Rightarrow> hash" where
  "leafAt (Node v l r) (Suc d) i =
     (if i < 2 ^ d then leafAt l d i else leafAt r d (i - 2 ^ d))"
| "leafAt t d i = nodeValue t"

fun siblingPath :: "mtree \<Rightarrow> nat \<Rightarrow> nat \<Rightarrow> hash list" where
  "siblingPath (Node v l r) (Suc d) i =
     (if i < 2 ^ d then siblingPath l d i @ [nodeValue r]
      else siblingPath r d (i - 2 ^ d) @ [nodeValue l])"
| "siblingPath t d i = []"

record MerkleTree =
  leafCount :: nat
  depth :: nat
  top :: mtree

definition NewMerkleTree :: "hashing \<Rightarrow> hash list \<Rightarrow> panic + MerkleTree" where
  "NewMerkleTree hp segments =
     (if segments = [] then Inl InvalidInput
      else Inr \<lparr>leafCount = length segments, depth = treeDepth (length segments),
                top = build hp (treeDepth (length segments)) segments\<rparr>)"

definition GetRoot :: "MerkleTree \<Rightarrow> hash" where
  "GetRoot t = nodeValue (top t)"

definition GetNode :: "MerkleTree \<Rightarrow> nat \<Rightarrow> panic + hash" where
  "GetNode t i = (if leafCount t \<le> i then Inl IndexOutOfRange else Inr (leafAt (top t) (depth t) i))"

definition GetProofFlat :: "MerkleTree \<Rightarrow> nat \<Rightarrow> panic + hash list" where
  "GetProofFlat t i =
     (if leafCount t \<le> i then Inl IndexOutOfRange else Inr (siblingPath (top t) (depth t) i))"

subsection \<open>chooseSegment\<close>

text \<open>\<^verbatim>\<open>big.NewInt\<close> reads its \<^verbatim>\<open>int64\<close> as a signed number.\<close>

definition big_NewInt :: "64 word \<Rightarrow> int" where
  "big_NewInt x = sint x"

text \<open>The result and the moves handed to the transaction sink so far. Go evaluates the
  arguments of \<^verbatim>\<open>ChooseSegment\<close> from left to right before the call, so a panic in
  one of them leaves the sink untouched. The transaction options \<^verbatim>\<open>c.auth\<close>, whose
  context the function sets first, are part of the binding here.\<close>

definition chooseSegment ::
  "hashing \<Rightarrow> bisectionChallenge \<Rightarrow> 16 word \<Rightarrow> hash list \<Rightarrow> Move list \<Rightarrow> go_result \<times> Move list" where
  "chooseSegment hp c segmentToChallenge segments sink =
     (case NewMerkleTree hp segments of
        Inl p \<Rightarrow> (Panic p, sink)
      | Inr tree \<Rightarrow>
      (case GetProofFlat tree (unat segmentToChallenge) of
        Inl p \<Rightarrow> (Panic p, sink)
      | Inr pf \<Rightarrow>
      (case GetNode tree (unat segmentToChallenge) of
        Inl p \<Rightarrow> (Panic p, sink)
      | Inr node \<Rightarrow>
      (let mv = \<lparr>segmentIndex = big_NewInt (ucast segmentToChallenge), proofFlat = pf,
                  root = GetRoot tree, leafValue = node\<rparr> in
       case ChooseSegment (BisectionChallenge c) mv of
        Inl err \<Rightarrow> (Err err, sink @ [mv])
      | Inr tx \<Rightarrow>
      (case waitForReceipt (client c) tx ''ChooseSegment'' of
        Some err \<Rightarrow> (Err err, sink @ [mv])
      | None \<Rightarrow> (NoError, sink @ [mv]))))))"

subsection \<open>Notions of the statements\<close>

text \<open>\<open>fullNotification c lg n\<close>: \<open>n\<close> is the complete notification of the entry
  \<open>lg\<close>, built from the header the client returns for the entry's block hash and from
  the decoded payload.\<close>

definition fullNotification :: "bisectionChallenge \<Rightarrow> log \<Rightarrow> Notification \<Rightarrow> bool" where
  "fullNotification c lg n =
     (case HeaderByHash (client c) (BlockHash lg) of
        Inl _ \<Rightarrow> False
      | Inr hdr \<Rightarrow>
          (case ParseContinued (BisectionChallenge c) lg of
             Inl _ \<Rightarrow> False
           | Inr d \<Rightarrow>
               n = \<lparr>BlockHeader = Hash hdr, BlockHeight = Number hdr, VMID = address c,
                     Event = ContinueChallengeEvent (SegmentIndex d) (TimeTicks (DeadlineTicks d)),
                     NTxHash = TxHash lg\<rparr>))"

text \<open>The two queries of \<^verbatim>\<open>StartConnection\<close> for the head \<open>hdr\<close>: the bounded one
  of the historical replay and the open one of the live subscription.\<close>

definition historyQuery :: "bisectionChallenge \<Rightarrow> header \<Rightarrow> FilterQuery" where
  "historyQuery c hdr =
     \<lparr>FromBlock = None, ToBlock = Some (Number hdr), Addresses = [address c],
      QTopics = [[continuedChallengeID (client c)]]\<rparr>"

definition liveQuery :: "bisectionChallenge \<Rightarrow> header \<Rightarrow> FilterQuery" where
  "liveQuery c hdr =
     \<lparr>FromBlock = Some (Number hdr + 1), ToBlock = None, Addresses = [address c],
      QTopics = [[continuedChallengeID (client c)]]\<rparr>"

text \<open>\<open>isContinued c lg\<close>: the entry is a \<^verbatim>\<open>Continued\<close> event of the dispute, that is,
  it comes from the challenge's address and its first topic is the registered digest.\<close>

definition isContinued :: "bisectionChallenge \<Rightarrow> log \<Rightarrow> bool" where
  "isContinued c lg =
     (Address lg = address c \<and>
      (case Topics lg of [] \<Rightarrow> False | t # _ \<Rightarrow> t = continuedChallengeID (client c)))"

subsection \<open>A scripted log\<close>

text \<open>The log of the spec's synchronisation test: three \<^verbatim>\<open>Continued\<close> events of the
  dispute at address 7, at heights 2, 5 and 9, and the head at height 6.\<close>

definition event2 :: log where
  "event2 = \<lparr>Address = 7, Topics = [1], BlockNumber = 2, TxHash = 202, BlockHash = 102\<rparr>"

definition event5 :: log where
  "event5 = \<lparr>Address = 7, Topics = [1], BlockNumber = 5, TxHash = 205, BlockHash = 105\<rparr>"

definition event9 :: log where
  "event9 = \<lparr>Address = 7, Topics = [1], BlockNumber = 9, TxHash = 209, BlockHash = 109\<rparr>"

definition scriptedLedger :: "log list" where
  "scriptedLedger = [event2, event5, event9]"

definition scriptedHeaders :: "hash \<Rightarrow> error + header" where
  "scriptedHeaders h =
     (if h = 102 then Inr \<lparr>Number = 2, Hash = 102\<rparr>
      else if h = 105 then Inr \<lparr>Number = 5, Hash = 105\<rparr>
      else if h = 109 then Inr \<lparr>Number = 9, Hash = 109\<rparr>
      else Inl (ClientError 404))"

definition scriptedContract :: contract where
  "scriptedContract =
     \<lparr>ParseContinued = (\<lambda>lg. if TxHash lg = 0 then Inl (ClientError 1)
                              else Inr \<lparr>SegmentIndex = 3, DeadlineTicks = uint (BlockNumber lg) + 100\<rparr>),
      ChooseSegment = (\<lambda>mv. Inr 1)\<rparr>"

definition scriptedClient :: client where
  "scriptedClient =
     ledgerClient 1 scriptedLedger \<lparr>Number = 6, Hash = 106\<rparr> scriptedHeaders
       (\<lambda>a. Inr scriptedContract)"

definition scriptedChallenge :: bisectionChallenge where
  "scriptedChallenge =
     \<lparr>address = 7, client = scriptedClient, BisectionChallenge = scriptedContract\<rparr>"

text \<open>Entries of the dispute's address with another first topic (one in a block whose
  header resolves, one in a block the client does not know), and one with no topic.\<close>

definition otherTopicLog :: log where
  "otherTopicLog = \<lparr>Address = 7, Topics = [2], BlockNumber = 5, TxHash = 215, BlockHash = 105\<rparr>"

definition strayLog :: log where
  "strayLog = \<lparr>Address = 7, Topics = [2], BlockNumber = 3, TxHash = 203, BlockHash = 999\<rparr>"

definition noTopicLog :: log where
  "noTopicLog = \<lparr>Address = 7, Topics = [], BlockNumber = 5, TxHash = 225, BlockHash = 105\<rparr>"

text \<open>The connection right after a successful start on the scripted log, before any
  live event.\<close>

definition scriptedLive :: connection where
  "scriptedLive =
     \<lparr>outChan = [], errChan = [],
      logSub = Subscribed \<lparr>FromBlock = Some 7, ToBlock = None, Addresses = [7], QTopics = [[1]]\<rparr>,
      task = Running, receiver = scriptedChallenge\<rparr>"

text \<open>The scripted challenge as the task meets it once the context is cancelled: the
  header lookup, which is passed that context, answers with the context's error.\<close>

definition contextCanceled :: error where
  "contextCanceled = ClientError 499"

definition cancelledChallenge :: bisectionChallenge where
  "cancelledChallenge =
     scriptedChallenge
       \<lparr>client := (client scriptedChallenge)\<lparr>HeaderByHash := (\<lambda>h. Inl contextCanceled)\<rparr>\<rparr>"

text \<open>The same log with an undecodable event at height 5, and the notifications of the
  three scripted events.\<close>

definition badEvent5 :: log where
  "badEvent5 = \<lparr>Address = 7, Topics = [1], BlockNumber = 5, TxHash = 0, BlockHash = 105\<rparr>"

definition brokenChallenge :: bisectionChallenge where
  "brokenChallenge =
     \<lparr>address = 7,
      client = ledgerClient 1 [event2, badEvent5, event9] \<lparr>Number = 6, Hash = 106\<rparr>
                 scriptedHeaders (\<lambda>a. Inr scriptedContract),
      BisectionChallenge = scriptedContract\<rparr>"

definition notification2 :: Notification where
  "notification2 = \<lparr>BlockHeader = 102, BlockHeight = 2, VMID = 7,
       Event = ContinueChallengeEvent 3 (TimeTicks 102), NTxHash = 202\<rparr>"

definition notification5 :: Notification where
  "notification5 = \<lparr>BlockHeader = 105, BlockHeight = 5, VMID = 7,
       Event = ContinueChallengeEvent 3 (TimeTicks 105), NTxHash = 205\<rparr>"

definition notification9 :: Notification where
  "notification9 = \<lparr>BlockHeader = 109, BlockHeight = 9, VMID = 7,
       Event = ContinueChallengeEvent 3 (TimeTicks 109), NTxHash = 209\<rparr>"

definition linearHashing :: hashing where
  "linearHashing = \<lparr>combine = (\<lambda>a b. 3 * a + b), sentinel = 0\<rparr>"

section \<open>Properties\<close>

subsection \<open>processEvents, path by path\<close>

lemma processEvents_header_error:
  "HeaderByHash (client c) (BlockHash lg) = Inl err \<Longrightarrow> processEvents c lg out = (Err err, out)"
  by (simp add: processEvents_def)

lemma processEvents_no_topic:
  "HeaderByHash (client c) (BlockHash lg) = Inr hdr \<Longrightarrow> Topics lg = [] \<Longrightarrow>
   processEvents c lg out = (Panic IndexOutOfRange, out)"
  by (simp add: processEvents_def)

lemma processEvents_other_topic:
  "HeaderByHash (client c) (BlockHash lg) = Inr hdr \<Longrightarrow> Topics lg = t # ts \<Longrightarrow>
   t \<noteq> continuedChallengeID (client c) \<Longrightarrow> processEvents c lg out = (NoError, out)"
  by (simp add: processEvents_def)

lemma processEvents_decode_error:
  "HeaderByHash (client c) (BlockHash lg) = Inr hdr \<Longrightarrow> Topics lg = t # ts \<Longrightarrow>
   t = continuedChallengeID (client c) \<Longrightarrow>
   ParseContinued (BisectionChallenge c) lg = Inl err \<Longrightarrow>
   processEvents c lg out = (Err err, out)"
  by (simp add: processEvents_def)

lemma processEvents_continued:
  "HeaderByHash (client c) (BlockHash lg) = Inr hdr \<Longrightarrow> Topics lg = t # ts \<Longrightarrow>
   t = continuedChallengeID (client c) \<Longrightarrow>
   ParseContinued (BisectionChallenge c) lg = Inr d \<Longrightarrow>
   processEvents c lg out =
     (NoError, out @ [\<lparr>BlockHeader = Hash hdr, BlockHeight = Number hdr, VMID = address c,
        Event = ContinueChallengeEvent (SegmentIndex d) (TimeTicks (DeadlineTicks d)),
        NTxHash = TxHash lg\<rparr>])"
  by (simp add: processEvents_def NewHashFromEth_def NewAddressFromEth_def)

lemma processEvents_emits:
  assumes "snd (processEvents c lg out) \<noteq> out"
  shows "\<exists>hdr d ts. HeaderByHash (client c) (BlockHash lg) = Inr hdr \<and>
           Topics lg = continuedChallengeID (client c) # ts \<and>
           ParseContinued (BisectionChallenge c) lg = Inr d \<and>
           processEvents c lg out =
             (NoError, out @ [\<lparr>BlockHeader = Hash hdr, BlockHeight = Number hdr,
                VMID = address c,
                Event = ContinueChallengeEvent (SegmentIndex d) (TimeTicks (DeadlineTicks d)),
                NTxHash = TxHash lg\<rparr>])"
  using assms
  by (auto simp: processEvents_def NewHashFromEth_def NewAddressFromEth_def
      split: sum.splits list.splits if_splits)

lemmas scripted_defs =
  scriptedChallenge_def scriptedClient_def scriptedContract_def scriptedHeaders_def
  scriptedLedger_def ledgerClient_def event2_def event5_def event9_def
  otherTopicLog_def strayLog_def noTopicLog_def scriptedLive_def

lemmas notification_defs = notification2_def notification5_def notification9_def

subsection \<open>The background task, step by step\<close>

lemma liveTask_CtxDone: "liveTask c (replicate n CtxDone @ evs) s = liveTask c evs s"
  by (induction n) simp_all

lemma liveTask_running:
  "task (liveTask c pre s) = Running \<Longrightarrow>
   liveTask c (pre @ rest) s = liveTask c rest (liveTask c pre s) \<and>
   errChan (liveTask c pre s) = errChan s \<and> logSub (liveTask c pre s) = logSub s \<and>
   receiver (liveTask c pre s) = receiver s \<and> task s = Running"
proof (induction pre arbitrary: s)
  case Nil
  then show ?case by simp
next
  case (Cons ev pre)
  show ?case
  proof (cases ev)
    case CtxDone
    with Cons show ?thesis by simp
  next
    case (LogRecv lg)
    obtain r out' where pe: "processEvents c lg (outChan s) = (r, out')"
      by (cases "processEvents c lg (outChan s)")
    show ?thesis
    proof (cases r)
      case NoError
      with Cons.prems LogRecv pe
      have "task (liveTask c pre (s\<lparr>outChan := out'\<rparr>)) = Running" by simp
      from Cons.IH [OF this] LogRecv pe NoError show ?thesis by simp
    next
      case (Err e)
      with Cons.prems LogRecv pe show ?thesis by simp
    next
      case (Panic p)
      with Cons.prems LogRecv pe show ?thesis by simp
    qed
  next
    case (SubErr e)
    with Cons.prems show ?thesis by simp
  qed
qed

lemma processEvents_Err_cases:
  "HeaderByHash (client c) (BlockHash lg) = Inl err \<or>
     (\<exists>hdr ts. HeaderByHash (client c) (BlockHash lg) = Inr hdr \<and>
        Topics lg = continuedChallengeID (client c) # ts \<and>
        ParseContinued (BisectionChallenge c) lg = Inl err) \<Longrightarrow>
   processEvents c lg out = (Err err, out)"
  by (auto simp: processEvents_def)

lemma liveTask_fail:
  assumes run: "task (liveTask c pre s) = Running"
    and fail: "ev = SubErr err \<or>
       (\<exists>lg. ev = LogRecv lg \<and>
          (HeaderByHash (client c) (BlockHash lg) = Inl err \<or>
           (\<exists>hdr ts. HeaderByHash (client c) (BlockHash lg) = Inr hdr \<and>
              Topics lg = continuedChallengeID (client c) # ts \<and>
              ParseContinued (BisectionChallenge c) lg = Inl err)))"
  shows "liveTask c (pre @ ev # post) s =
     (liveTask c pre s)\<lparr>errChan := errChan s @ [err], logSub := Unsubscribed, task := Returned\<rparr>"
proof -
  let ?s1 = "liveTask c pre s"
  from liveTask_running [OF run, of "ev # post"]
  have split: "liveTask c (pre @ ev # post) s = liveTask c (ev # post) ?s1"
    and errs: "errChan ?s1 = errChan s" by simp_all
  from fail show ?thesis
  proof
    assume "ev = SubErr err"
    with split errs show ?thesis by simp
  next
    assume "\<exists>lg. ev = LogRecv lg \<and>
          (HeaderByHash (client c) (BlockHash lg) = Inl err \<or>
           (\<exists>hdr ts. HeaderByHash (client c) (BlockHash lg) = Inr hdr \<and>
              Topics lg = continuedChallengeID (client c) # ts \<and>
              ParseContinued (BisectionChallenge c) lg = Inl err))"
    then obtain lg where ev: "ev = LogRecv lg"
      and pe: "processEvents c lg (outChan ?s1) = (Err err, outChan ?s1)"
      using processEvents_Err_cases [of c _ err "outChan ?s1"] by blast
    with split errs show ?thesis by simp
  qed
qed

lemma processEvents_out:
  "snd (processEvents c lg out) = out \<or>
   (\<exists>n. snd (processEvents c lg out) = out @ [n] \<and> fullNotification c lg n)"
  by (auto simp: processEvents_def fullNotification_def NewHashFromEth_def NewAddressFromEth_def
      split: sum.splits list.splits)

lemma liveTask_outChan:
  "n \<in> set (outChan (liveTask c evs s)) \<Longrightarrow>
   n \<in> set (outChan s) \<or> (\<exists>lg. LogRecv lg \<in> set evs \<and> fullNotification c lg n)"
proof (induction evs arbitrary: s)
  case Nil
  then show ?case by simp
next
  case (Cons ev evs)
  show ?case
  proof (cases ev)
    case CtxDone
    with Cons show ?thesis by auto
  next
    case (LogRecv lg)
    obtain r out' where pe: "processEvents c lg (outChan s) = (r, out')"
      by (cases "processEvents c lg (outChan s)")
    from processEvents_out [of c lg "outChan s"] pe
    have out': "out' = outChan s \<or> (\<exists>m. out' = outChan s @ [m] \<and> fullNotification c lg m)"
      by simp
    have step: "n \<in> set out' \<Longrightarrow> ?thesis"
      using out' LogRecv by auto
    show ?thesis
    proof (cases r)
      case NoError
      with Cons.prems LogRecv pe
      have "n \<in> set (outChan (liveTask c evs (s\<lparr>outChan := out'\<rparr>)))" by simp
      from Cons.IH [OF this] have "n \<in> set out' \<or> (\<exists>lg. LogRecv lg \<in> set evs \<and> fullNotification c lg n)"
        by simp
      with step LogRecv show ?thesis by auto
    next
      case (Err e)
      with Cons.prems LogRecv pe have "n \<in> set out'" by simp
      then show ?thesis by (rule step)
    next
      case (Panic p)
      with Cons.prems LogRecv pe have "n \<in> set out'" by simp
      then show ?thesis by (rule step)
    qed
  next
    case (SubErr e)
    with Cons.prems show ?thesis by simp
  qed
qed

subsection \<open>The topic dispatch\<close>

text \<open>
  C5, as the claim states it, fails: the header lookup comes before the topic test, so
  an entry with another first topic whose block header cannot be resolved ends in that
  lookup's error.
\<close>

theorem processEvents_other_topic_error:
  "Topics strayLog = [2] \<and> continuedChallengeID (client scriptedChallenge) = 1 \<and>
   processEvents scriptedChallenge strayLog [] = (Err (ClientError 404), [])"
  by (simp add: processEvents_def scripted_defs)

text \<open>
  C5, amended: a notification is sent only for an entry whose first topic is the
  \<^verbatim>\<open>Continued\<close> digest; an entry with another first topic whose block header resolves is
  skipped, with no error and no notification.
\<close>

theorem processEvents_topic_dispatch:
  "(snd (processEvents c lg out) \<noteq> out \<longrightarrow>
      (\<exists>ts. Topics lg = continuedChallengeID (client c) # ts)) \<and>
   (\<forall>t ts hdr. Topics lg = t # ts \<and> t \<noteq> continuedChallengeID (client c) \<and>
        HeaderByHash (client c) (BlockHash lg) = Inr hdr \<longrightarrow>
      processEvents c lg out = (NoError, out))"
proof (intro conjI impI allI)
  assume "snd (processEvents c lg out) \<noteq> out"
  from processEvents_emits [OF this]
  show "\<exists>ts. Topics lg = continuedChallengeID (client c) # ts" by blast
next
  fix t ts hdr
  assume "Topics lg = t # ts \<and> t \<noteq> continuedChallengeID (client c) \<and>
          HeaderByHash (client c) (BlockHash lg) = Inr hdr"
  then show "processEvents c lg out = (NoError, out)"
    by (simp add: processEvents_other_topic)
qed

theorem processEvents_topic_dispatch_witness:
  "snd (processEvents scriptedChallenge event2 []) \<noteq> [] \<and>
   Topics event2 = [continuedChallengeID (client scriptedChallenge)] \<and>
   Topics otherTopicLog = [2] \<and> 2 \<noteq> continuedChallengeID (client scriptedChallenge) \<and>
   HeaderByHash (client scriptedChallenge) (BlockHash otherTopicLog)
     = Inr \<lparr>Number = 5, Hash = 105\<rparr> \<and>
   processEvents scriptedChallenge otherTopicLog [] = (NoError, [])"
  using processEvents_topic_dispatch [of scriptedChallenge event2 "[]"]
        processEvents_topic_dispatch [of scriptedChallenge otherTopicLog "[]"]
  by (simp add: processEvents_def scripted_defs)

subsection \<open>The notification\<close>

text \<open>
  C6: for an entry whose first topic is the \<^verbatim>\<open>Continued\<close> digest, whose block header
  the client resolves by the entry's block hash and whose payload decodes, exactly one
  notification is sent, and it carries the hash and the height of that header, the
  challenge's address, the decoded segment index and deadline ticks, and the entry's
  transaction hash; and whenever \<open>processEvents\<close> sends anything, it is that record,
  built from a header that the lookup by the entry's block hash returned.
\<close>

theorem processEvents_notification:
  "(\<forall>hdr d ts. HeaderByHash (client c) (BlockHash lg) = Inr hdr \<and>
       Topics lg = continuedChallengeID (client c) # ts \<and>
       ParseContinued (BisectionChallenge c) lg = Inr d \<longrightarrow>
     processEvents c lg out =
       (NoError, out @ [\<lparr>BlockHeader = Hash hdr, BlockHeight = Number hdr, VMID = address c,
          Event = ContinueChallengeEvent (SegmentIndex d) (TimeTicks (DeadlineTicks d)),
          NTxHash = TxHash lg\<rparr>])) \<and>
   (snd (processEvents c lg out) \<noteq> out \<longrightarrow>
     (\<exists>hdr d. HeaderByHash (client c) (BlockHash lg) = Inr hdr \<and>
        ParseContinued (BisectionChallenge c) lg = Inr d \<and>
        snd (processEvents c lg out) =
          out @ [\<lparr>BlockHeader = Hash hdr, BlockHeight = Number hdr, VMID = address c,
             Event = ContinueChallengeEvent (SegmentIndex d) (TimeTicks (DeadlineTicks d)),
             NTxHash = TxHash lg\<rparr>]))"
proof (intro conjI impI allI)
  fix hdr d ts
  assume "HeaderByHash (client c) (BlockHash lg) = Inr hdr \<and>
          Topics lg = continuedChallengeID (client c) # ts \<and>
          ParseContinued (BisectionChallenge c) lg = Inr d"
  then show "processEvents c lg out =
       (NoError, out @ [\<lparr>BlockHeader = Hash hdr, BlockHeight = Number hdr, VMID = address c,
          Event = ContinueChallengeEvent (SegmentIndex d) (TimeTicks (DeadlineTicks d)),
          NTxHash = TxHash lg\<rparr>])"
    by (simp add: processEvents_continued)
next
  assume "snd (processEvents c lg out) \<noteq> out"
  from processEvents_emits [OF this] obtain hdr d where
    "HeaderByHash (client c) (BlockHash lg) = Inr hdr"
    "ParseContinued (BisectionChallenge c) lg = Inr d"
    "processEvents c lg out =
       (NoError, out @ [\<lparr>BlockHeader = Hash hdr, BlockHeight = Number hdr, VMID = address c,
          Event = ContinueChallengeEvent (SegmentIndex d) (TimeTicks (DeadlineTicks d)),
          NTxHash = TxHash lg\<rparr>])"
    by blast
  then show "\<exists>hdr d. HeaderByHash (client c) (BlockHash lg) = Inr hdr \<and>
        ParseContinued (BisectionChallenge c) lg = Inr d \<and>
        snd (processEvents c lg out) =
          out @ [\<lparr>BlockHeader = Hash hdr, BlockHeight = Number hdr, VMID = address c,
             Event = ContinueChallengeEvent (SegmentIndex d) (TimeTicks (DeadlineTicks d)),
             NTxHash = TxHash lg\<rparr>]"
    by (intro exI [of _ hdr] exI [of _ d]) simp
qed

theorem processEvents_notification_witness:
  "HeaderByHash (client scriptedChallenge) (BlockHash event5) = Inr \<lparr>Number = 5, Hash = 105\<rparr> \<and>
   Topics event5 = [continuedChallengeID (client scriptedChallenge)] \<and>
   ParseContinued (BisectionChallenge scriptedChallenge) event5
     = Inr \<lparr>SegmentIndex = 3, DeadlineTicks = 105\<rparr> \<and>
   processEvents scriptedChallenge event5 [] =
     (NoError, [\<lparr>BlockHeader = 105, BlockHeight = 5, VMID = 7,
        Event = ContinueChallengeEvent 3 (TimeTicks 105), NTxHash = 205\<rparr>]) \<and>
   snd (processEvents scriptedChallenge event5 []) \<noteq> []"
proof -
  have h: "HeaderByHash (client scriptedChallenge) (BlockHash event5)
             = Inr \<lparr>Number = 5, Hash = 105\<rparr> \<and>
           Topics event5 = continuedChallengeID (client scriptedChallenge) # [] \<and>
           ParseContinued (BisectionChallenge scriptedChallenge) event5
             = Inr \<lparr>SegmentIndex = 3, DeadlineTicks = 105\<rparr>"
    by (simp add: scripted_defs)
  from processEvents_notification [of scriptedChallenge event5 "[]", THEN conjunct1,
      rule_format, OF h]
  have "processEvents scriptedChallenge event5 [] =
     (NoError, [\<lparr>BlockHeader = 105, BlockHeight = 5, VMID = 7,
        Event = ContinueChallengeEvent 3 (TimeTicks 105), NTxHash = 205\<rparr>])"
    by (simp add: scriptedChallenge_def event5_def)
  with h show ?thesis by simp
qed

subsection \<open>The unchecked first topic\<close>

text \<open>
  C9: \<open>processEvents\<close> reads the first topic without a length check. It panics (the
  index is out of range) exactly on an entry with no topic whose block header resolved;
  an entry with at least one topic never makes it panic, whatever the client answers.
\<close>

theorem processEvents_panics_iff_no_topic:
  "((\<exists>p. fst (processEvents c lg out) = Panic p) \<longleftrightarrow>
      (Topics lg = [] \<and> (\<exists>hdr. HeaderByHash (client c) (BlockHash lg) = Inr hdr))) \<and>
   (Topics lg \<noteq> [] \<longrightarrow> (\<forall>c' out' p. fst (processEvents c' lg out') \<noteq> Panic p)) \<and>
   (Topics lg = [] \<and> (\<exists>hdr. HeaderByHash (client c) (BlockHash lg) = Inr hdr) \<longrightarrow>
      processEvents c lg out = (Panic IndexOutOfRange, out))"
  by (auto simp: processEvents_def split: sum.splits list.splits if_splits)

theorem processEvents_panics_iff_no_topic_witness:
  "Topics noTopicLog = [] \<and>
   HeaderByHash (client scriptedChallenge) (BlockHash noTopicLog) = Inr \<lparr>Number = 5, Hash = 105\<rparr> \<and>
   processEvents scriptedChallenge noTopicLog [] = (Panic IndexOutOfRange, []) \<and>
   Topics event5 \<noteq> [] \<and>
   fst (processEvents scriptedChallenge event5 []) \<noteq> Panic IndexOutOfRange"
  using processEvents_panics_iff_no_topic [of scriptedChallenge noTopicLog "[]"]
        processEvents_panics_iff_no_topic [of scriptedChallenge event5 "[]"]
  by (simp add: scripted_defs)

subsection \<open>Cancellation\<close>

text \<open>
  C2 does not hold of the code. The \<^verbatim>\<open>break\<close> in the \<^verbatim>\<open>ctx.Done()\<close> case leaves only
  the \<^verbatim>\<open>select\<close>, so the loop goes on: however often the task sees the cancellation,
  it is where it was, still running and still subscribed. On the scripted log,
  cancelling right after the start, before any live event, releases nothing. A log that
  arrives after the cancellation is still taken from the channel and its header is
  still looked up; the lookup is passed the cancelled context and fails, and only then
  does the task stop: the lookup's error goes to the error channel, the subscription is
  released and nothing is notified.
\<close>

theorem liveTask_ignores_cancellation:
  "liveTask c (replicate n CtxDone @ evs) s = liveTask c evs s \<and>
   liveTask scriptedChallenge [CtxDone] scriptedLive = scriptedLive \<and>
   task scriptedLive = Running \<and>
   logSub scriptedLive
     = Subscribed \<lparr>FromBlock = Some 7, ToBlock = None, Addresses = [7], QTopics = [[1]]\<rparr> \<and>
   liveTask (c\<lparr>client := (client c)\<lparr>HeaderByHash := (\<lambda>h. Inl err)\<rparr>\<rparr>)
       (replicate n CtxDone @ LogRecv lg # evs) s =
     s\<lparr>errChan := errChan s @ [err], logSub := Unsubscribed, task := Returned\<rparr> \<and>
   liveTask cancelledChallenge [CtxDone, LogRecv event9] scriptedLive =
     \<lparr>outChan = [], errChan = [contextCanceled], logSub = Unsubscribed, task = Returned,
      receiver = scriptedChallenge\<rparr>"
proof -
  have step: "liveTask (c\<lparr>client := (client c)\<lparr>HeaderByHash := (\<lambda>h. Inl e)\<rparr>\<rparr>)
       (replicate n CtxDone @ LogRecv lg # evs) s =
     s\<lparr>errChan := errChan s @ [e], logSub := Unsubscribed, task := Returned\<rparr>"
    for c e n lg evs s
  proof -
    have "processEvents (c\<lparr>client := (client c)\<lparr>HeaderByHash := (\<lambda>h. Inl e)\<rparr>\<rparr>) lg (outChan s)
            = (Err e, outChan s)"
      by (rule processEvents_header_error) simp
    then show ?thesis by (simp add: liveTask_CtxDone)
  qed
  have "liveTask cancelledChallenge (replicate (Suc 0) CtxDone @ LogRecv event9 # []) scriptedLive =
     scriptedLive\<lparr>errChan := errChan scriptedLive @ [contextCanceled],
                   logSub := Unsubscribed, task := Returned\<rparr>"
    unfolding cancelledChallenge_def by (rule step)
  then have cancelled: "liveTask cancelledChallenge [CtxDone, LogRecv event9] scriptedLive =
     \<lparr>outChan = [], errChan = [contextCanceled], logSub = Unsubscribed, task = Returned,
      receiver = scriptedChallenge\<rparr>"
    by (simp add: scriptedLive_def)
  show ?thesis
  proof (intro conjI)
    show "liveTask c (replicate n CtxDone @ evs) s = liveTask c evs s"
      by (rule liveTask_CtxDone)
    show "liveTask scriptedChallenge [CtxDone] scriptedLive = scriptedLive"
      by simp
    show "task scriptedLive = Running"
      by (simp add: scriptedLive_def)
    show "logSub scriptedLive
       = Subscribed \<lparr>FromBlock = Some 7, ToBlock = None, Addresses = [7], QTopics = [[1]]\<rparr>"
      by (simp add: scriptedLive_def)
    show "liveTask (c\<lparr>client := (client c)\<lparr>HeaderByHash := (\<lambda>h. Inl err)\<rparr>\<rparr>)
         (replicate n CtxDone @ LogRecv lg # evs) s =
       s\<lparr>errChan := errChan s @ [err], logSub := Unsubscribed, task := Returned\<rparr>"
      by (rule step)
    show "liveTask cancelledChallenge [CtxDone, LogRecv event9] scriptedLive =
       \<lparr>outChan = [], errChan = [contextCanceled], logSub = Unsubscribed, task = Returned,
        receiver = scriptedChallenge\<rparr>"
      by (rule cancelled)
  qed
qed

subsection \<open>Failures of the live phase\<close>

text \<open>
  C4: while the task is running, an event of its \<^verbatim>\<open>select\<close> that fails (the
  subscription reports an error, the header of a received entry cannot be resolved, or
  a \<^verbatim>\<open>Continued\<close> entry does not decode) ends it: the error is appended once to the
  error channel, the subscription is released, the task has returned, nothing is sent
  for the failing entry, and whatever the \<^verbatim>\<open>select\<close> would have offered afterwards is
  not looked at. Every notification on the channel is one that was there before or the
  complete notification of an entry received before the failure.
\<close>

theorem liveTask_fail_fast:
  assumes "task (liveTask c pre s) = Running"
    and "ev = SubErr err \<or>
       (\<exists>lg. ev = LogRecv lg \<and>
          (HeaderByHash (client c) (BlockHash lg) = Inl err \<or>
           (\<exists>hdr ts. HeaderByHash (client c) (BlockHash lg) = Inr hdr \<and>
              Topics lg = continuedChallengeID (client c) # ts \<and>
              ParseContinued (BisectionChallenge c) lg = Inl err)))"
  shows "liveTask c (pre @ ev # post) s =
     (liveTask c pre s)\<lparr>errChan := errChan s @ [err], logSub := Unsubscribed, task := Returned\<rparr> \<and>
   (\<forall>n \<in> set (outChan (liveTask c (pre @ ev # post) s)).
      n \<in> set (outChan s) \<or> (\<exists>lg. LogRecv lg \<in> set pre \<and> fullNotification c lg n))"
proof -
  have eq: "liveTask c (pre @ ev # post) s =
     (liveTask c pre s)\<lparr>errChan := errChan s @ [err], logSub := Unsubscribed, task := Returned\<rparr>"
    using assms by (rule liveTask_fail)
  then have "outChan (liveTask c (pre @ ev # post) s) = outChan (liveTask c pre s)"
    by simp
  with liveTask_outChan [of _ c pre s] eq show ?thesis by simp
qed

theorem liveTask_fail_fast_witness:
  "task (liveTask scriptedChallenge [LogRecv event9] scriptedLive) = Running \<and>
   HeaderByHash (client scriptedChallenge) (BlockHash strayLog) = Inl (ClientError 404) \<and>
   liveTask scriptedChallenge ([LogRecv event9] @ LogRecv strayLog # [LogRecv event5]) scriptedLive =
     \<lparr>outChan = [\<lparr>BlockHeader = 109, BlockHeight = 9, VMID = 7,
                  Event = ContinueChallengeEvent 3 (TimeTicks 109), NTxHash = 209\<rparr>],
      errChan = [ClientError 404], logSub = Unsubscribed, task = Returned,
      receiver = scriptedChallenge\<rparr>"
proof -
  have pe: "processEvents scriptedChallenge event9 [] =
      (NoError, [\<lparr>BlockHeader = 109, BlockHeight = 9, VMID = 7,
       Event = ContinueChallengeEvent 3 (TimeTicks 109), NTxHash = 209\<rparr>])"
    by (simp add: processEvents_def NewHashFromEth_def NewAddressFromEth_def scripted_defs)
  then have pre: "liveTask scriptedChallenge [LogRecv event9] scriptedLive =
      scriptedLive\<lparr>outChan := [\<lparr>BlockHeader = 109, BlockHeight = 9, VMID = 7,
       Event = ContinueChallengeEvent 3 (TimeTicks 109), NTxHash = 209\<rparr>]\<rparr>"
    by (simp add: scriptedLive_def)
  then have run: "task (liveTask scriptedChallenge [LogRecv event9] scriptedLive) = Running"
    by (simp add: scriptedLive_def)
  have hdr: "HeaderByHash (client scriptedChallenge) (BlockHash strayLog) = Inl (ClientError 404)"
    by (simp add: scripted_defs)
  then have fail: "LogRecv strayLog = SubErr (ClientError 404) \<or>
       (\<exists>lg. LogRecv strayLog = LogRecv lg \<and>
          (HeaderByHash (client scriptedChallenge) (BlockHash lg) = Inl (ClientError 404) \<or>
           (\<exists>hdr ts. HeaderByHash (client scriptedChallenge) (BlockHash lg) = Inr hdr \<and>
              Topics lg = continuedChallengeID (client scriptedChallenge) # ts \<and>
              ParseContinued (BisectionChallenge scriptedChallenge) lg = Inl (ClientError 404))))"
    by blast
  from liveTask_fail_fast [OF run fail, of "[LogRecv event5]", THEN conjunct1] pre
  have "liveTask scriptedChallenge ([LogRecv event9] @ LogRecv strayLog # [LogRecv event5])
          scriptedLive =
     \<lparr>outChan = [\<lparr>BlockHeader = 109, BlockHeight = 9, VMID = 7,
                  Event = ContinueChallengeEvent 3 (TimeTicks 109), NTxHash = 209\<rparr>],
      errChan = [ClientError 404], logSub = Unsubscribed, task = Returned,
      receiver = scriptedChallenge\<rparr>"
    by (simp add: scriptedLive_def)
  with run hdr show ?thesis by simp
qed

subsection \<open>StartConnection, stage by stage\<close>

lemma historyLoop_append:
  "fst (historyLoop c pre out) = NoError \<Longrightarrow>
   historyLoop c (pre @ rest) out = historyLoop c rest (snd (historyLoop c pre out))"
proof (induction pre arbitrary: out)
  case Nil
  then show ?case by simp
next
  case (Cons lg pre)
  obtain r out' where pe: "processEvents c lg out = (r, out')"
    by (cases "processEvents c lg out")
  with Cons.prems have r: "r = NoError" by (cases r) simp_all
  with Cons.prems pe have "fst (historyLoop c pre out') = NoError" by simp
  from Cons.IH [OF this] pe r show ?case by simp
qed

lemma historyLoop_first_failure:
  assumes "fst (historyLoop c pre out) = NoError"
    and "fst (processEvents c lg (snd (historyLoop c pre out))) = Err e"
  shows "fst (historyLoop c (pre @ lg # post) out) = Err e"
proof -
  obtain out' where "processEvents c lg (snd (historyLoop c pre out)) = (Err e, out')"
    using assms(2) by (cases "processEvents c lg (snd (historyLoop c pre out))") simp
  with historyLoop_append [OF assms(1), of "lg # post"] show ?thesis by simp
qed

lemma StartConnection_not_started:
  "StartConnection c out errs = (r, s) \<Longrightarrow> r \<noteq> NoError \<Longrightarrow>
   errChan s = errs \<and> task s = NotStarted \<and> logSub s = NoSubscription"
  by (auto simp: StartConnection_def Let_def
      split: option.splits sum.splits prod.splits go_result.splits)

lemma StartConnection_after_query:
  assumes "challengeStartConnection (client c) = None"
    and "NewBisectionChallenge (client c) (address c) = Inr k"
    and "HeaderByNumber (client c) = Inr hdr"
    and "FilterLogs (client c) (historyQuery c hdr) = Inr logs"
  shows "StartConnection c out errs =
     (case historyLoop (c\<lparr>BisectionChallenge := k\<rparr>) logs out of
        (NoError, out') \<Rightarrow>
          (case SubscribeFilterLogs (client c) (liveQuery c hdr) of
             Some err \<Rightarrow>
               (Err err, \<lparr>outChan = out', errChan = errs, logSub = NoSubscription,
                          task = NotStarted, receiver = c\<lparr>BisectionChallenge := k\<rparr>\<rparr>)
           | None \<Rightarrow>
               (NoError, \<lparr>outChan = out', errChan = errs, logSub = Subscribed (liveQuery c hdr),
                          task = Running, receiver = c\<lparr>BisectionChallenge := k\<rparr>\<rparr>))
      | (r, out') \<Rightarrow>
          (r, \<lparr>outChan = out', errChan = errs, logSub = NoSubscription,
                task = NotStarted, receiver = c\<lparr>BisectionChallenge := k\<rparr>\<rparr>))"
  using assms
  by (simp add: StartConnection_def setupContracts_def Let_def historyQuery_def liveQuery_def
      split: prod.splits go_result.splits option.splits)

lemma StartConnection_early:
  "challengeStartConnection (client c) = Some e \<Longrightarrow> fst (StartConnection c out errs) = Err e"
  "challengeStartConnection (client c) = None \<Longrightarrow>
     NewBisectionChallenge (client c) (address c) = Inl e \<Longrightarrow>
     fst (StartConnection c out errs) = Err (Wrap e ''Failed to connect to ChallengeManager'')"
  "challengeStartConnection (client c) = None \<Longrightarrow>
     NewBisectionChallenge (client c) (address c) = Inr k \<Longrightarrow>
     HeaderByNumber (client c) = Inl e \<Longrightarrow> fst (StartConnection c out errs) = Err e"
  "challengeStartConnection (client c) = None \<Longrightarrow>
     NewBisectionChallenge (client c) (address c) = Inr k \<Longrightarrow>
     HeaderByNumber (client c) = Inr hdr \<Longrightarrow>
     FilterLogs (client c) (historyQuery c hdr) = Inl e \<Longrightarrow>
     fst (StartConnection c out errs) = Err e"
  by (simp_all add: StartConnection_def setupContracts_def Let_def historyQuery_def)

lemma StartConnection_history_failure:
  assumes "challengeStartConnection (client c) = None"
    and "NewBisectionChallenge (client c) (address c) = Inr k"
    and "HeaderByNumber (client c) = Inr hdr"
    and "FilterLogs (client c) (historyQuery c hdr) = Inr (pre @ lg # post)"
    and "fst (historyLoop (c\<lparr>BisectionChallenge := k\<rparr>) pre out) = NoError"
    and "fst (processEvents (c\<lparr>BisectionChallenge := k\<rparr>) lg
               (snd (historyLoop (c\<lparr>BisectionChallenge := k\<rparr>) pre out))) = Err e"
  shows "fst (StartConnection c out errs) = Err e"
proof -
  from historyLoop_first_failure [OF assms(5,6), of post]
  obtain out' where "historyLoop (c\<lparr>BisectionChallenge := k\<rparr>) (pre @ lg # post) out = (Err e, out')"
    by (cases "historyLoop (c\<lparr>BisectionChallenge := k\<rparr>) (pre @ lg # post) out") simp
  with StartConnection_after_query [OF assms(1-4), of out errs] show ?thesis by simp
qed

lemma StartConnection_subscribe_failure:
  assumes "challengeStartConnection (client c) = None"
    and "NewBisectionChallenge (client c) (address c) = Inr k"
    and "HeaderByNumber (client c) = Inr hdr"
    and "FilterLogs (client c) (historyQuery c hdr) = Inr logs"
    and "fst (historyLoop (c\<lparr>BisectionChallenge := k\<rparr>) logs out) = NoError"
    and "SubscribeFilterLogs (client c) (liveQuery c hdr) = Some e"
  shows "fst (StartConnection c out errs) = Err e"
proof -
  obtain out' where "historyLoop (c\<lparr>BisectionChallenge := k\<rparr>) logs out = (NoError, out')"
    using assms(5) by (cases "historyLoop (c\<lparr>BisectionChallenge := k\<rparr>) logs out") simp
  with StartConnection_after_query [OF assms(1-4), of out errs] assms(6) show ?thesis by simp
qed

lemma broken_start:
  "StartConnection brokenChallenge [] [] =
     (Err (ClientError 1),
      \<lparr>outChan = [notification2], errChan = [], logSub = NoSubscription, task = NotStarted,
       receiver = brokenChallenge\<rparr>)"
  by (simp add: StartConnection_def setupContracts_def Let_def brokenChallenge_def
      ledgerClient_def queryLogs_def matches_def processEvents_def NewHashFromEth_def
      NewAddressFromEth_def scriptedHeaders_def scriptedContract_def
      event2_def badEvent5_def event9_def notification2_def)

subsection \<open>Failures before the task starts\<close>

text \<open>
  C8: a call of \<^verbatim>\<open>StartConnection\<close> that does not return \<^verbatim>\<open>nil\<close> has put nothing on the
  error channel, has started no task and holds no subscription; and each failure of the
  start-up (the embedded challenge's start, the connection to the contract, the head
  lookup, the historical query, the processing of a historical entry, the subscription
  request) is the returned result, the contract failure wrapped with the message of
  \<^verbatim>\<open>setupContracts\<close>.
\<close>

theorem StartConnection_failure_returned:
  assumes "StartConnection c out errs = (r, s)"
  shows
   "(r \<noteq> NoError \<longrightarrow> errChan s = errs \<and> task s = NotStarted \<and> logSub s = NoSubscription) \<and>
    (\<forall>e. challengeStartConnection (client c) = Some e \<longrightarrow> r = Err e) \<and>
    (challengeStartConnection (client c) = None \<longrightarrow>
      (\<forall>e. NewBisectionChallenge (client c) (address c) = Inl e \<longrightarrow>
           r = Err (Wrap e ''Failed to connect to ChallengeManager'')) \<and>
      (\<forall>k. NewBisectionChallenge (client c) (address c) = Inr k \<longrightarrow>
        (\<forall>e. HeaderByNumber (client c) = Inl e \<longrightarrow> r = Err e) \<and>
        (\<forall>hdr. HeaderByNumber (client c) = Inr hdr \<longrightarrow>
          (\<forall>e. FilterLogs (client c) (historyQuery c hdr) = Inl e \<longrightarrow> r = Err e) \<and>
          (\<forall>logs. FilterLogs (client c) (historyQuery c hdr) = Inr logs \<longrightarrow>
             (\<forall>pre lg post e. logs = pre @ lg # post \<and>
                  fst (historyLoop (c\<lparr>BisectionChallenge := k\<rparr>) pre out) = NoError \<and>
                  fst (processEvents (c\<lparr>BisectionChallenge := k\<rparr>) lg
                        (snd (historyLoop (c\<lparr>BisectionChallenge := k\<rparr>) pre out))) = Err e
                \<longrightarrow> r = Err e) \<and>
             (fst (historyLoop (c\<lparr>BisectionChallenge := k\<rparr>) logs out) = NoError \<longrightarrow>
               (\<forall>e. SubscribeFilterLogs (client c) (liveQuery c hdr) = Some e \<longrightarrow> r = Err e))))))"
proof -
  have r: "r = fst (StartConnection c out errs)" using assms by simp
  have "r \<noteq> NoError \<longrightarrow> errChan s = errs \<and> task s = NotStarted \<and> logSub s = NoSubscription"
    using StartConnection_not_started [OF assms] by blast
  moreover have "\<forall>e. challengeStartConnection (client c) = Some e \<longrightarrow> r = Err e"
    unfolding r by (blast intro: StartConnection_early(1))
  moreover have "\<forall>e. challengeStartConnection (client c) = None \<longrightarrow>
      NewBisectionChallenge (client c) (address c) = Inl e \<longrightarrow>
      r = Err (Wrap e ''Failed to connect to ChallengeManager'')"
    unfolding r by (blast intro: StartConnection_early(2))
  moreover have "\<forall>k e. challengeStartConnection (client c) = None \<longrightarrow>
      NewBisectionChallenge (client c) (address c) = Inr k \<longrightarrow>
      HeaderByNumber (client c) = Inl e \<longrightarrow> r = Err e"
    unfolding r by (blast intro: StartConnection_early(3))
  moreover have "\<forall>k hdr e. challengeStartConnection (client c) = None \<longrightarrow>
      NewBisectionChallenge (client c) (address c) = Inr k \<longrightarrow>
      HeaderByNumber (client c) = Inr hdr \<longrightarrow>
      FilterLogs (client c) (historyQuery c hdr) = Inl e \<longrightarrow> r = Err e"
    unfolding r by (blast intro: StartConnection_early(4))
  moreover have "\<forall>k hdr pre lg post e. challengeStartConnection (client c) = None \<longrightarrow>
      NewBisectionChallenge (client c) (address c) = Inr k \<longrightarrow>
      HeaderByNumber (client c) = Inr hdr \<longrightarrow>
      FilterLogs (client c) (historyQuery c hdr) = Inr (pre @ lg # post) \<longrightarrow>
      fst (historyLoop (c\<lparr>BisectionChallenge := k\<rparr>) pre out) = NoError \<longrightarrow>
      fst (processEvents (c\<lparr>BisectionChallenge := k\<rparr>) lg
            (snd (historyLoop (c\<lparr>BisectionChallenge := k\<rparr>) pre out))) = Err e \<longrightarrow>
      r = Err e"
    unfolding r by (blast intro: StartConnection_history_failure)
  moreover have "\<forall>k hdr logs e. challengeStartConnection (client c) = None \<longrightarrow>
      NewBisectionChallenge (client c) (address c) = Inr k \<longrightarrow>
      HeaderByNumber (client c) = Inr hdr \<longrightarrow>
      FilterLogs (client c) (historyQuery c hdr) = Inr logs \<longrightarrow>
      fst (historyLoop (c\<lparr>BisectionChallenge := k\<rparr>) logs out) = NoError \<longrightarrow>
      SubscribeFilterLogs (client c) (liveQuery c hdr) = Some e \<longrightarrow> r = Err e"
    unfolding r by (blast intro: StartConnection_subscribe_failure)
  ultimately show ?thesis by blast
qed


theorem StartConnection_failure_returned_witness:
  "StartConnection brokenChallenge [] [] =
     (Err (ClientError 1),
      \<lparr>outChan = [notification2], errChan = [], logSub = NoSubscription, task = NotStarted,
       receiver = brokenChallenge\<rparr>) \<and>
   Err (ClientError 1) \<noteq> NoError \<and>
   errChan \<lparr>outChan = [notification2], errChan = [], logSub = NoSubscription,
            task = NotStarted, receiver = brokenChallenge\<rparr> = [] \<and>
   task \<lparr>outChan = [notification2], errChan = [], logSub = NoSubscription,
         task = NotStarted, receiver = brokenChallenge\<rparr> = NotStarted \<and>
   logSub \<lparr>outChan = [notification2], errChan = [], logSub = NoSubscription,
           task = NotStarted, receiver = brokenChallenge\<rparr> = NoSubscription"
  using StartConnection_failure_returned [OF broken_start, THEN conjunct1] broken_start
  by simp

subsection \<open>History, then the live feed\<close>

lemma topicsMatch_single:
  "topicsMatch [[t]] ts = (case ts of [] \<Rightarrow> False | x # _ \<Rightarrow> x = t)"
  by (cases ts) simp_all

lemma matches_historyQuery:
  "matches (historyQuery c hdr) lg \<longleftrightarrow> isContinued c lg \<and> uint (BlockNumber lg) \<le> Number hdr"
  by (simp add: matches_def historyQuery_def isContinued_def topicsMatch_single)

lemma matches_liveQuery:
  "matches (liveQuery c hdr) lg \<longleftrightarrow> isContinued c lg \<and> Number hdr < uint (BlockNumber lg)"
  by (auto simp: matches_def liveQuery_def isContinued_def topicsMatch_single)

lemma processEvents_full:
  assumes "isContinued c lg" and "fullNotification c lg n"
  shows "processEvents c lg out = (NoError, out @ [n])"
  using assms
  by (auto simp: processEvents_def isContinued_def fullNotification_def NewHashFromEth_def
      NewAddressFromEth_def split: sum.splits list.splits)

lemma historyLoop_all:
  assumes "\<forall>lg \<in> set logs. isContinued c lg \<and> (\<exists>n. fullNotification c lg n)"
  shows "\<exists>ns. historyLoop c logs out = (NoError, out @ ns) \<and> list_all2 (fullNotification c) logs ns"
  using assms
proof (induction logs arbitrary: out)
  case Nil
  then show ?case by simp
next
  case (Cons lg logs)
  then obtain n where n: "isContinued c lg" "fullNotification c lg n" by auto
  from Cons.prems have "\<forall>lg \<in> set logs. isContinued c lg \<and> (\<exists>n. fullNotification c lg n)"
    by simp
  from Cons.IH [OF this, of "out @ [n]"] obtain ns where
    ns: "historyLoop c logs (out @ [n]) = (NoError, (out @ [n]) @ ns)"
      "list_all2 (fullNotification c) logs ns" by blast
  have "historyLoop c (lg # logs) out = (NoError, out @ (n # ns))"
    using processEvents_full [OF n, of out] ns(1) by simp
  moreover have "list_all2 (fullNotification c) (lg # logs) (n # ns)"
    using n(2) ns(2) by simp
  ultimately show ?case by blast
qed

lemma liveTask_all:
  assumes "\<forall>lg \<in> set logs. isContinued c lg \<and> (\<exists>n. fullNotification c lg n)"
  shows "\<exists>ns. liveTask c (map LogRecv logs) s = s\<lparr>outChan := outChan s @ ns\<rparr> \<and>
               list_all2 (fullNotification c) logs ns"
  using assms
proof (induction logs arbitrary: s)
  case Nil
  then show ?case by simp
next
  case (Cons lg logs)
  then obtain n where n: "isContinued c lg" "fullNotification c lg n" by auto
  from Cons.prems have "\<forall>lg \<in> set logs. isContinued c lg \<and> (\<exists>n. fullNotification c lg n)"
    by simp
  from Cons.IH [OF this, of "s\<lparr>outChan := outChan s @ [n]\<rparr>"] obtain ns where
    ns: "liveTask c (map LogRecv logs) (s\<lparr>outChan := outChan s @ [n]\<rparr>)
           = s\<lparr>outChan := outChan s @ [n]\<rparr>\<lparr>outChan := outChan (s\<lparr>outChan := outChan s @ [n]\<rparr>) @ ns\<rparr>"
      "list_all2 (fullNotification c) logs ns" by blast
  have "liveTask c (map LogRecv (lg # logs)) s = s\<lparr>outChan := outChan s @ (n # ns)\<rparr>"
    using processEvents_full [OF n, of "outChan s"] ns(1) by simp
  moreover have "list_all2 (fullNotification c) (lg # logs) (n # ns)"
    using n(2) ns(2) by simp
  ultimately show ?case by blast
qed

lemma filter_height_split:
  fixes h :: "'a \<Rightarrow> int"
  assumes "sorted_wrt (\<lambda>a b. h a \<le> h b) xs"
  shows "filter (\<lambda>x. P x \<and> h x \<le> H) xs @ filter (\<lambda>x. P x \<and> H < h x) xs = filter P xs"
  using assms
proof (induction xs)
  case Nil
  then show ?case by simp
next
  case (Cons x xs)
  then have IH: "filter (\<lambda>x. P x \<and> h x \<le> H) xs @ filter (\<lambda>x. P x \<and> H < h x) xs = filter P xs"
    by simp
  show ?case
  proof (cases "h x \<le> H")
    case True
    with IH show ?thesis by simp
  next
    case False
    with Cons.prems have "\<forall>y \<in> set xs. \<not> h y \<le> H" by auto
    then have "filter (\<lambda>x. P x \<and> h x \<le> H) xs = []" by (simp add: filter_empty_conv)
    with IH False show ?thesis by simp
  qed
qed

lemma heights_sorted:
  assumes "list_all2 (\<lambda>lg n. BlockHeight n = uint (BlockNumber lg)) logs ns"
    and "sorted_wrt (\<lambda>a b. BlockNumber a \<le> BlockNumber b) logs"
  shows "sorted (map BlockHeight ns)"
proof -
  from assms(1) have "map BlockHeight ns = map (\<lambda>lg. uint (BlockNumber lg)) logs"
    by (induction rule: list_all2_induct) simp_all
  moreover from assms(2) have "sorted (map (\<lambda>lg. uint (BlockNumber lg)) logs)"
    by (simp add: sorted_map word_le_def)
  ultimately show ?thesis by simp
qed


lemma fullNotification_unique:
  "fullNotification c lg n \<Longrightarrow> fullNotification c lg n' \<Longrightarrow> n = n'"
  by (auto simp: fullNotification_def split: sum.splits)

lemma isContinued_binding [simp]:
  "isContinued (c\<lparr>BisectionChallenge := k\<rparr>) lg = isContinued c lg"
  by (simp add: isContinued_def split: list.splits)

lemma scripted_full:
  "fullNotification scriptedChallenge event2 n \<longleftrightarrow> n = notification2"
  "fullNotification scriptedChallenge event5 n \<longleftrightarrow> n = notification5"
  "fullNotification scriptedChallenge event9 n \<longleftrightarrow> n = notification9"
  by (simp_all add: fullNotification_def scripted_defs notification_defs)

lemma scripted_binding: "scriptedChallenge\<lparr>BisectionChallenge := scriptedContract\<rparr> = scriptedChallenge"
  by (simp add: scriptedChallenge_def)

text \<open>
  C1: let the client answer from an authoritative log that is in block order, with head
  \<open>head\<close>, and let every \<^verbatim>\<open>Continued\<close> event of the dispute in it resolve to its block's
  header and decode. Then \<^verbatim>\<open>StartConnection\<close> succeeds; it has sent, in log order, one
  notification for each such event at or below the head's height and none for any other;
  its subscription starts at that height plus one; fed by that subscription, the task
  sends one notification for each event above the head, after the historical ones; so
  the channel holds exactly one notification per event of the log, in log order, and
  the block heights on it never decrease.
\<close>

theorem StartConnection_no_gap_no_duplicate:
  assumes cl: "client c = ledgerClient topic ledger head headers bind"
    and bind: "bind (address c) = Inr k"
    and ordered: "sorted_wrt (\<lambda>a b. BlockNumber a \<le> BlockNumber b) ledger"
    and resolves: "\<forall>lg \<in> set ledger. isContinued c lg \<longrightarrow>
        (\<exists>n. fullNotification (c\<lparr>BisectionChallenge := k\<rparr>) lg n \<and>
             BlockHeight n = uint (BlockNumber lg))"
  shows "\<exists>hist live.
    StartConnection c out errs =
      (NoError, \<lparr>outChan = out @ hist, errChan = errs, logSub = Subscribed (liveQuery c head),
                 task = Running, receiver = c\<lparr>BisectionChallenge := k\<rparr>\<rparr>) \<and>
    FromBlock (liveQuery c head) = Some (Number head + 1) \<and>
    ToBlock (liveQuery c head) = None \<and>
    list_all2 (fullNotification (c\<lparr>BisectionChallenge := k\<rparr>))
      [lg \<leftarrow> ledger. isContinued c lg \<and> uint (BlockNumber lg) \<le> Number head] hist \<and>
    liveTask (c\<lparr>BisectionChallenge := k\<rparr>) (subscribeLogs ledger (liveQuery c head))
        \<lparr>outChan = out @ hist, errChan = errs, logSub = Subscribed (liveQuery c head),
         task = Running, receiver = c\<lparr>BisectionChallenge := k\<rparr>\<rparr> =
      \<lparr>outChan = out @ hist @ live, errChan = errs, logSub = Subscribed (liveQuery c head),
       task = Running, receiver = c\<lparr>BisectionChallenge := k\<rparr>\<rparr> \<and>
    list_all2 (fullNotification (c\<lparr>BisectionChallenge := k\<rparr>))
      [lg \<leftarrow> ledger. isContinued c lg \<and> Number head < uint (BlockNumber lg)] live \<and>
    list_all2 (fullNotification (c\<lparr>BisectionChallenge := k\<rparr>))
      [lg \<leftarrow> ledger. isContinued c lg] (hist @ live) \<and>
    sorted (map BlockHeight (hist @ live))"
proof -
  let ?c = "c\<lparr>BisectionChallenge := k\<rparr>"
  let ?H = "[lg \<leftarrow> ledger. isContinued c lg \<and> uint (BlockNumber lg) \<le> Number head]"
  let ?L = "[lg \<leftarrow> ledger. isContinued c lg \<and> Number head < uint (BlockNumber lg)]"
  have base: "challengeStartConnection (client c) = None"
    and nbc: "NewBisectionChallenge (client c) (address c) = Inr k"
    and hbn: "HeaderByNumber (client c) = Inr head"
    and sub: "SubscribeFilterLogs (client c) (liveQuery c head) = None"
    using cl bind by (simp_all add: ledgerClient_def)
  have qH: "queryLogs ledger (historyQuery c head) = ?H"
    unfolding queryLogs_def by (rule filter_cong) (simp_all add: matches_historyQuery)
  have qL: "subscribeLogs ledger (liveQuery c head) = map LogRecv ?L"
  proof -
    have "queryLogs ledger (liveQuery c head) = ?L"
      unfolding queryLogs_def by (rule filter_cong) (simp_all add: matches_liveQuery)
    then show ?thesis by (simp add: subscribeLogs_def)
  qed
  have fl: "FilterLogs (client c) (historyQuery c head) = Inr ?H"
    using cl qH by (simp add: ledgerClient_def)
  have okH: "\<forall>lg \<in> set ?H. isContinued ?c lg \<and> (\<exists>n. fullNotification ?c lg n)"
    using resolves by auto
  have okL: "\<forall>lg \<in> set ?L. isContinued ?c lg \<and> (\<exists>n. fullNotification ?c lg n)"
    using resolves by auto
  from historyLoop_all [OF okH, of out] obtain hist where
    hist: "historyLoop ?c ?H out = (NoError, out @ hist)"
      "list_all2 (fullNotification ?c) ?H hist" by blast
  let ?s = "\<lparr>outChan = out @ hist, errChan = errs, logSub = Subscribed (liveQuery c head),
             task = Running, receiver = ?c\<rparr>"
  have start: "StartConnection c out errs = (NoError, ?s)"
    using StartConnection_after_query [OF base nbc hbn fl, of out errs] hist(1) sub by simp
  from liveTask_all [OF okL, of ?s] obtain live where
    live: "liveTask ?c (map LogRecv ?L) ?s = ?s\<lparr>outChan := outChan ?s @ live\<rparr>"
      "list_all2 (fullNotification ?c) ?L live" by blast
  have run: "liveTask ?c (subscribeLogs ledger (liveQuery c head)) ?s =
      \<lparr>outChan = out @ hist @ live, errChan = errs, logSub = Subscribed (liveQuery c head),
       task = Running, receiver = ?c\<rparr>"
    using live(1) qL by simp
  have "sorted_wrt (\<lambda>a b. uint (BlockNumber a) \<le> uint (BlockNumber b)) ledger"
    using ordered by (simp add: word_le_def)
  from filter_height_split [OF this, of "isContinued c" "Number head"]
  have split: "?H @ ?L = [lg \<leftarrow> ledger. isContinued c lg]" .
  have all: "list_all2 (fullNotification ?c) [lg \<leftarrow> ledger. isContinued c lg] (hist @ live)"
    using list_all2_appendI [OF hist(2) live(2)] split by simp
  have "list_all2 (\<lambda>lg n. BlockHeight n = uint (BlockNumber lg))
          [lg \<leftarrow> ledger. isContinued c lg] (hist @ live)"
    using all
  proof (rule list.rel_mono_strong)
    fix lg n
    assume "lg \<in> set [lg \<leftarrow> ledger. isContinued c lg]" and f: "fullNotification ?c lg n"
    with resolves obtain n' where "fullNotification ?c lg n'" "BlockHeight n' = uint (BlockNumber lg)"
      by auto
    with f show "BlockHeight n = uint (BlockNumber lg)"
      using fullNotification_unique by blast
  qed
  moreover have "sorted_wrt (\<lambda>a b. BlockNumber a \<le> BlockNumber b) [lg \<leftarrow> ledger. isContinued c lg]"
    using ordered by (rule sorted_wrt_filter)
  ultimately have srt: "sorted (map BlockHeight (hist @ live))" by (rule heights_sorted)
  have "FromBlock (liveQuery c head) = Some (Number head + 1)" "ToBlock (liveQuery c head) = None"
    by (simp_all add: liveQuery_def)
  with start hist(2) run live(2) all srt show ?thesis by blast
qed


theorem StartConnection_no_gap_no_duplicate_witness:
  "client scriptedChallenge =
     ledgerClient 1 scriptedLedger \<lparr>Number = 6, Hash = 106\<rparr> scriptedHeaders
       (\<lambda>a. Inr scriptedContract) \<and>
   sorted_wrt (\<lambda>a b. BlockNumber a \<le> BlockNumber b) scriptedLedger \<and>
   set scriptedLedger = {event2, event5, event9} \<and>
   fullNotification scriptedChallenge event2 notification2 \<and>
   BlockHeight notification2 = uint (BlockNumber event2) \<and>
   fullNotification scriptedChallenge event5 notification5 \<and>
   BlockHeight notification5 = uint (BlockNumber event5) \<and>
   fullNotification scriptedChallenge event9 notification9 \<and>
   BlockHeight notification9 = uint (BlockNumber event9) \<and>
   StartConnection scriptedChallenge [] [] =
     (NoError, scriptedLive\<lparr>outChan := [notification2, notification5]\<rparr>) \<and>
   liveTask scriptedChallenge
       (subscribeLogs scriptedLedger (liveQuery scriptedChallenge \<lparr>Number = 6, Hash = 106\<rparr>))
       (scriptedLive\<lparr>outChan := [notification2, notification5]\<rparr>) =
     scriptedLive\<lparr>outChan := [notification2, notification5, notification9]\<rparr>"
proof -
  let ?head = "\<lparr>Number = 6, Hash = 106\<rparr>"
  have cl: "client scriptedChallenge =
     ledgerClient 1 scriptedLedger ?head scriptedHeaders (\<lambda>a. Inr scriptedContract)"
    by (simp add: scriptedChallenge_def scriptedClient_def)
  have bind: "(\<lambda>a. Inr scriptedContract) (address scriptedChallenge) = Inr scriptedContract"
    by simp
  have ordered: "sorted_wrt (\<lambda>a b. BlockNumber a \<le> BlockNumber b) scriptedLedger"
    by (simp add: scriptedLedger_def event2_def event5_def event9_def)
  have resolves: "\<forall>lg \<in> set scriptedLedger. isContinued scriptedChallenge lg \<longrightarrow>
      (\<exists>n. fullNotification scriptedChallenge lg n \<and> BlockHeight n = uint (BlockNumber lg))"
    by (simp add: scriptedLedger_def scripted_full)
       (simp add: notification_defs event2_def event5_def event9_def)
  have resolves': "\<forall>lg \<in> set scriptedLedger. isContinued scriptedChallenge lg \<longrightarrow>
      (\<exists>n. fullNotification (scriptedChallenge\<lparr>BisectionChallenge := scriptedContract\<rparr>) lg n \<and>
           BlockHeight n = uint (BlockNumber lg))"
    using resolves by (simp only: scripted_binding)
  have cont: "isContinued scriptedChallenge event2" "isContinued scriptedChallenge event5"
    "isContinued scriptedChallenge event9"
    by (simp_all add: isContinued_def scripted_defs)
  have H: "[lg \<leftarrow> scriptedLedger. isContinued scriptedChallenge lg \<and>
              uint (BlockNumber lg) \<le> Number ?head] = [event2, event5]"
    by (simp add: scriptedLedger_def cont) (simp add: event2_def event5_def event9_def)
  have L: "[lg \<leftarrow> scriptedLedger. isContinued scriptedChallenge lg \<and>
              Number ?head < uint (BlockNumber lg)] = [event9]"
    by (simp add: scriptedLedger_def cont) (simp add: event2_def event5_def event9_def)
  have q: "liveQuery scriptedChallenge ?head =
      \<lparr>FromBlock = Some 7, ToBlock = None, Addresses = [7], QTopics = [[1]]\<rparr>"
    by (simp add: liveQuery_def scripted_defs)
  from StartConnection_no_gap_no_duplicate [OF cl bind ordered resolves', of "[]" "[]"]
  obtain hist live where
    start: "StartConnection scriptedChallenge [] [] =
      (NoError, \<lparr>outChan = [] @ hist, errChan = [],
         logSub = Subscribed (liveQuery scriptedChallenge ?head), task = Running,
         receiver = scriptedChallenge\<lparr>BisectionChallenge := scriptedContract\<rparr>\<rparr>)"
    and hist: "list_all2 (fullNotification (scriptedChallenge\<lparr>BisectionChallenge := scriptedContract\<rparr>))
      [lg \<leftarrow> scriptedLedger. isContinued scriptedChallenge lg \<and>
              uint (BlockNumber lg) \<le> Number ?head] hist"
    and run: "liveTask (scriptedChallenge\<lparr>BisectionChallenge := scriptedContract\<rparr>)
        (subscribeLogs scriptedLedger (liveQuery scriptedChallenge ?head))
        \<lparr>outChan = [] @ hist, errChan = [],
         logSub = Subscribed (liveQuery scriptedChallenge ?head), task = Running,
         receiver = scriptedChallenge\<lparr>BisectionChallenge := scriptedContract\<rparr>\<rparr> =
      \<lparr>outChan = [] @ hist @ live, errChan = [],
       logSub = Subscribed (liveQuery scriptedChallenge ?head), task = Running,
       receiver = scriptedChallenge\<lparr>BisectionChallenge := scriptedContract\<rparr>\<rparr>"
    and live: "list_all2 (fullNotification (scriptedChallenge\<lparr>BisectionChallenge := scriptedContract\<rparr>))
      [lg \<leftarrow> scriptedLedger. isContinued scriptedChallenge lg \<and>
              Number ?head < uint (BlockNumber lg)] live"
    by blast
  from hist have hist_eq: "hist = [notification2, notification5]"
    unfolding H scripted_binding by (auto simp: list_all2_Cons1 scripted_full)
  from live have live_eq: "live = [notification9]"
    unfolding L scripted_binding by (auto simp: list_all2_Cons1 scripted_full)
  have s: "\<lparr>outChan = ns, errChan = [],
         logSub = Subscribed (liveQuery scriptedChallenge ?head), task = Running,
         receiver = scriptedChallenge\<lparr>BisectionChallenge := scriptedContract\<rparr>\<rparr>
      = scriptedLive\<lparr>outChan := ns\<rparr>" for ns
    unfolding q scripted_binding by (simp add: scriptedLive_def)
  from start have "StartConnection scriptedChallenge [] [] =
     (NoError, scriptedLive\<lparr>outChan := [notification2, notification5]\<rparr>)"
    unfolding hist_eq append_Nil s .
  moreover from run have "liveTask scriptedChallenge
       (subscribeLogs scriptedLedger (liveQuery scriptedChallenge ?head))
       (scriptedLive\<lparr>outChan := [notification2, notification5]\<rparr>) =
     scriptedLive\<lparr>outChan := [notification2, notification5, notification9]\<rparr>"
    unfolding hist_eq live_eq append_Nil s by (simp only: scripted_binding append.simps)
  moreover have "set scriptedLedger = {event2, event5, event9}"
    by (simp add: scriptedLedger_def)
  moreover have "BlockHeight notification2 = uint (BlockNumber event2)"
    "BlockHeight notification5 = uint (BlockNumber event5)"
    "BlockHeight notification9 = uint (BlockNumber event9)"
    by (simp_all add: notification_defs event2_def event5_def event9_def)
  ultimately show ?thesis using cl ordered by (simp add: scripted_full)
qed

subsection \<open>The tree and chooseSegment\<close>

lemma big_NewInt_uint16: "big_NewInt (ucast (i :: 16 word)) = uint i"
proof -
  have "uint i < 2 ^ 16" using uint_bounded [of i] by simp
  then have lt: "uint i < 2 ^ 63" by simp
  have ge: "- (2 ^ 63) \<le> uint i"
    using uint_ge_0 [of i] by (simp add: order_trans [of _ 0])
  have up: "uint (ucast i :: 64 word) = uint i"
    by (simp add: uint_up_ucast is_up)
  have "sint (ucast i :: 64 word) = signed_take_bit 63 (uint (ucast i :: 64 word))"
    by (simp add: sint_uint)
  also have "\<dots> = signed_take_bit 63 (uint i)" by (simp only: up)
  also have "\<dots> = uint i" using ge lt by (rule signed_take_bit_int_eq_self)
  finally show ?thesis by (simp add: big_NewInt_def)
qed

lemma big_NewInt_range: "0 \<le> big_NewInt (ucast (i :: 16 word)) \<and> big_NewInt (ucast i) \<le> 65535"
proof -
  have "uint i < 2 ^ 16" using uint_bounded [of i] by simp
  then show ?thesis by (simp add: big_NewInt_uint16)
qed

lemma depthFrom_covers: "0 < p \<Longrightarrow> p = 2 ^ d \<Longrightarrow> n \<le> 2 ^ depthFrom d p n"
proof (induction d p n rule: depthFrom.induct)
  case (1 d p n)
  show ?case
  proof (cases "n \<le> p")
    case True
    with "1.prems" show ?thesis by simp
  next
    case False
    with "1.prems" have "n \<le> 2 ^ depthFrom (Suc d) (2 * p) n"
      by (intro "1.IH") simp_all
    with False "1.prems" show ?thesis by simp
  qed
qed

lemma treeDepth_covers: "n \<le> 2 ^ treeDepth n"
  unfolding treeDepth_def by (rule depthFrom_covers) simp_all

lemma leafAt_build:
  "i < length xs \<Longrightarrow> length xs \<le> 2 ^ d \<Longrightarrow> leafAt (build hp d xs) d i = xs ! i"
proof (induction d arbitrary: xs i)
  case 0
  then show ?case by (cases xs) simp_all
next
  case (Suc d)
  show ?case
  proof (cases "i < 2 ^ d")
    case True
    with Suc.prems have "leafAt (build hp d (take (2 ^ d) xs)) d i = take (2 ^ d) xs ! i"
      by (intro Suc.IH) simp_all
    with True show ?thesis by (simp add: Let_def)
  next
    case False
    with Suc.prems have "leafAt (build hp d (drop (2 ^ d) xs)) d (i - 2 ^ d) = drop (2 ^ d) xs ! (i - 2 ^ d)"
      by (intro Suc.IH) simp_all
    with False Suc.prems show ?thesis by (simp add: Let_def)
  qed
qed

lemma length_siblingPath: "length (siblingPath (build hp d xs) d i) = d"
  by (induction d arbitrary: xs i) (simp_all add: Let_def)

lemma chooseSegment_in_range:
  assumes "unat i < length segments"
  shows "chooseSegment hp c i segments sink =
     (let tree = \<lparr>leafCount = length segments, depth = treeDepth (length segments),
                   top = build hp (treeDepth (length segments)) segments\<rparr>;
          mv = \<lparr>segmentIndex = uint i,
                 proofFlat = siblingPath (top tree) (depth tree) (unat i),
                 root = GetRoot tree, leafValue = segments ! unat i\<rparr>
      in (case ChooseSegment (BisectionChallenge c) mv of
            Inl err \<Rightarrow> Err err
          | Inr tx \<Rightarrow>
              (case waitForReceipt (client c) tx ''ChooseSegment'' of
                 Some err \<Rightarrow> Err err
               | None \<Rightarrow> NoError),
          sink @ [mv]))"
proof -
  from assms have ne: "segments \<noteq> []" by auto
  have leaf: "leafAt (build hp (treeDepth (length segments)) segments)
                (treeDepth (length segments)) (unat i) = segments ! unat i"
    using assms treeDepth_covers by (rule leafAt_build)
  show ?thesis
    using assms ne leaf
    by (simp add: chooseSegment_def NewMerkleTree_def GetProofFlat_def GetNode_def Let_def
        big_NewInt_uint16 split: sum.splits option.splits)
qed

lemma chooseSegment_out_of_range:
  assumes "length segments \<le> unat i"
  shows "chooseSegment hp c i segments sink =
     (Panic (if segments = [] then InvalidInput else IndexOutOfRange), sink)"
  using assms
  by (simp add: chooseSegment_def NewMerkleTree_def GetProofFlat_def)

lemma chooseSegment_sink:
  "snd (chooseSegment hp c i segments sink) = sink \<or>
   (\<exists>mv. snd (chooseSegment hp c i segments sink) = sink @ [mv] \<and> segmentIndex mv = uint i)"
  by (simp add: chooseSegment_def Let_def big_NewInt_uint16 split: sum.splits option.splits)


lemma chooseSegment_example:
  "chooseSegment linearHashing scriptedChallenge 2 [10, 20, 30, 40] [] =
     (NoError, [\<lparr>segmentIndex = 2, proofFlat = [40, 50], root = 280, leafValue = 30\<rparr>])"
  by code_simp

subsection \<open>An index beyond the segments\<close>

text \<open>
  C3, as the claim states it, fails for the empty sequence: every index is out of range
  there, but the tree is built first, and building fails with \<^verbatim>\<open>InvalidInput\<close>.
\<close>

theorem chooseSegment_empty_invalid_input:
  "length ([] :: hash list) \<le> unat (0 :: 16 word) \<and>
   chooseSegment linearHashing scriptedChallenge 0 [] [] = (Panic InvalidInput, [])"
  by (simp add: chooseSegment_def NewMerkleTree_def)

text \<open>
  C3, amended: for an index at or beyond the length of the segment sequence,
  \<open>chooseSegment\<close> fails and hands nothing to the transaction sink; the failure is
  \<^verbatim>\<open>IndexOutOfRange\<close> when the sequence is not empty (so for index 4 on four segments),
  and \<^verbatim>\<open>InvalidInput\<close> when it is empty.
\<close>

theorem chooseSegment_index_out_of_range:
  "length segments \<le> unat i \<Longrightarrow>
   chooseSegment hp c i segments sink =
     (Panic (if segments = [] then InvalidInput else IndexOutOfRange), sink)"
  by (rule chooseSegment_out_of_range)

theorem chooseSegment_index_out_of_range_witness:
  "length [10, 20, 30, 40 :: hash] \<le> unat (4 :: 16 word) \<and>
   chooseSegment linearHashing scriptedChallenge 4 [10, 20, 30, 40] [] =
     (Panic IndexOutOfRange, [])"
proof -
  have h: "length [10, 20, 30, 40 :: hash] \<le> unat (4 :: 16 word)" by simp
  from chooseSegment_index_out_of_range [OF h, of linearHashing scriptedChallenge "[]"] h
  show ?thesis by simp
qed

subsection \<open>The submitted move\<close>

text \<open>
  C7: for an index within the segment sequence, \<open>chooseSegment\<close> builds the tree over
  the segments and hands exactly one move to the sink: the index, the proof the tree
  gives for that leaf, the tree's root and the leaf value, which is the segment at the
  index. Its result is the sink's: the error of the submission if it is refused, else
  what waiting for the receipt reports.
\<close>

theorem chooseSegment_submits_move:
  assumes "unat i < length segments"
  shows "\<exists>tree pf.
     NewMerkleTree hp segments = Inr tree \<and>
     GetProofFlat tree (unat i) = Inr pf \<and>
     GetNode tree (unat i) = Inr (segments ! unat i) \<and>
     chooseSegment hp c i segments sink =
       ((case ChooseSegment (BisectionChallenge c)
                \<lparr>segmentIndex = uint i, proofFlat = pf, root = GetRoot tree,
                 leafValue = segments ! unat i\<rparr> of
           Inl err \<Rightarrow> Err err
         | Inr tx \<Rightarrow>
             (case waitForReceipt (client c) tx ''ChooseSegment'' of
                Some err \<Rightarrow> Err err
              | None \<Rightarrow> NoError)),
        sink @ [\<lparr>segmentIndex = uint i, proofFlat = pf, root = GetRoot tree,
                 leafValue = segments ! unat i\<rparr>])"
proof -
  let ?tree = "\<lparr>leafCount = length segments, depth = treeDepth (length segments),
                top = build hp (treeDepth (length segments)) segments\<rparr>"
  let ?pf = "siblingPath (top ?tree) (depth ?tree) (unat i)"
  from assms have ne: "segments \<noteq> []" by auto
  then have t: "NewMerkleTree hp segments = Inr ?tree" by (simp add: NewMerkleTree_def)
  have p: "GetProofFlat ?tree (unat i) = Inr ?pf"
    using assms by (simp add: GetProofFlat_def)
  have "leafAt (build hp (treeDepth (length segments)) segments)
                (treeDepth (length segments)) (unat i) = segments ! unat i"
    using assms treeDepth_covers by (rule leafAt_build)
  then have n: "GetNode ?tree (unat i) = Inr (segments ! unat i)"
    using assms by (simp add: GetNode_def)
  from chooseSegment_in_range [OF assms, of hp c sink] t p n
  show ?thesis by (simp add: Let_def)
qed

theorem chooseSegment_submits_move_witness:
  "unat (2 :: 16 word) < length [10, 20, 30, 40 :: hash] \<and>
   (\<exists>tree pf.
     NewMerkleTree linearHashing [10, 20, 30, 40] = Inr tree \<and>
     GetProofFlat tree (unat (2 :: 16 word)) = Inr pf \<and>
     GetNode tree (unat (2 :: 16 word)) = Inr ([10, 20, 30, 40] ! unat (2 :: 16 word)) \<and>
     chooseSegment linearHashing scriptedChallenge 2 [10, 20, 30, 40] [] =
       ((case ChooseSegment (BisectionChallenge scriptedChallenge)
                \<lparr>segmentIndex = uint (2 :: 16 word), proofFlat = pf, root = GetRoot tree,
                 leafValue = [10, 20, 30, 40] ! unat (2 :: 16 word)\<rparr> of
           Inl err \<Rightarrow> Err err
         | Inr tx \<Rightarrow>
             (case waitForReceipt (client scriptedChallenge) tx ''ChooseSegment'' of
                Some err \<Rightarrow> Err err
              | None \<Rightarrow> NoError)),
        [] @ [\<lparr>segmentIndex = uint (2 :: 16 word), proofFlat = pf, root = GetRoot tree,
                 leafValue = [10, 20, 30, 40] ! unat (2 :: 16 word)\<rparr>])) \<and>
   chooseSegment linearHashing scriptedChallenge 2 [10, 20, 30, 40] [] =
     (NoError, [\<lparr>segmentIndex = 2, proofFlat = [40, 50], root = 280, leafValue = 30\<rparr>])"
proof -
  have h: "unat (2 :: 16 word) < length [10, 20, 30, 40 :: hash]" by simp
  from chooseSegment_submits_move [OF h, of linearHashing scriptedChallenge "[]"]
    h chooseSegment_example
  show ?thesis by blast
qed

subsection \<open>The width of the segment index\<close>

text \<open>
  C10: the index is a 16-bit unsigned number; its conversion to \<^verbatim>\<open>int64\<close> and then to the
  big integer of the move gives the same number, between 0 and 65535, and this is the
  index of any move \<open>chooseSegment\<close> hands to the sink.
\<close>

theorem segmentIndex_exact:
  "big_NewInt (ucast (i :: 16 word)) = uint i \<and>
   0 \<le> big_NewInt (ucast i) \<and> big_NewInt (ucast i) \<le> 65535 \<and>
   (snd (chooseSegment hp c i segments sink) = sink \<or>
    (\<exists>mv. snd (chooseSegment hp c i segments sink) = sink @ [mv] \<and>
          segmentIndex mv = uint i \<and> 0 \<le> segmentIndex mv \<and> segmentIndex mv \<le> 65535))"
proof -
  have r: "0 \<le> uint i \<and> uint i \<le> 65535"
    using big_NewInt_range [of i] by (simp add: big_NewInt_uint16)
  with chooseSegment_sink [of hp c i segments sink] big_NewInt_uint16 [of i]
  show ?thesis by auto
qed

end
